theory Spec2Isabelle
  imports Main "HOL-Library.Word"
begin

section \<open>The \<open>files\<close> command of guacone (cmd/guacone/cmd/files.go)\<close>

text \<open>
  The file holds one cobra command. Its \<open>Run\<close> function validates the flags, builds the
  three pipeline closures (processor, ingestor, assembler), starts the collectors and
  then fans the documents of all collectors into \<open>emit\<close>, one at a time, until every
  collector has signalled its completion; a last loop drains the document channel.

  Go errors are modelled by their message, a \<open>string\<close>; a function returning
  \<open>(T, error)\<close> whose callers only use \<open>T\<close> when the error is nil returns
  \<open>error + T\<close>, with \<open>Inl\<close> the error.
\<close>

type_synonym error = string

subsection \<open>Flags and options\<close>

text \<open>The package-level variable \<open>flags\<close> (lines 36-40), filled by cobra before \<open>Run\<close>.\<close>

record flags =
  dbAddr :: string
  creds :: string
  realm :: string

text \<open>The struct \<open>options\<close> (lines 42-50).\<close>

record options =
  dbAddr :: string
  user :: string
  pass :: string
  realm :: string
  path :: string

text \<open>\<open>var opts options\<close>: every field holds the zero value of its type.\<close>

definition zero_options :: options where
  "zero_options =
     \<lparr>options.dbAddr = [], user = [], pass = [], options.realm = [], path = []\<rparr>"

text \<open>
  \<open>strings.Split(s, sep)\<close> of Go's standard library for a separator of one byte (the
  only call passes \<open>":"\<close>): the pieces of \<open>s\<close> between the occurrences of the separator,
  in order, empty pieces included. \<open>cur\<close> is the piece being read.
\<close>

fun SplitFrom :: "string \<Rightarrow> char \<Rightarrow> string \<Rightarrow> string list" where
  "SplitFrom cur sep [] = [cur]"
| "SplitFrom cur sep (c # cs) =
     (if c = sep then cur # SplitFrom [] sep cs else SplitFrom (cur @ [c]) sep cs)"

definition Split :: "string \<Rightarrow> char \<Rightarrow> string list" where
  "Split s sep = SplitFrom [] sep s"

text \<open>
  \<open>validateFlags\<close> (lines 149-165). Go returns the options built so far together with
  the error, so the model returns the pair; \<open>None\<close> is the nil error.
\<close>

definition validateFlags :: "flags \<Rightarrow> string list \<Rightarrow> options \<times> error option" where
  "validateFlags fl args =
     (let opts = zero_options;
          credsSplit = Split (creds fl) CHR '':''
      in if length credsSplit \<noteq> 2
         then (opts, Some ''creds flag not in correct format user:pass'')
         else
           let opts = opts\<lparr>user := credsSplit ! 0\<rparr>;
               opts = opts\<lparr>pass := credsSplit ! 1\<rparr>;
               opts = opts\<lparr>options.dbAddr := flags.dbAddr fl\<rparr>
           in if length args \<noteq> 1
              then (opts, Some ''expected positional argument for file_path'')
              else (opts\<lparr>path := args ! 0\<rparr>, None))"

subsection \<open>Documents and graphs\<close>

text \<open>
  A Go slice of bytes is a window on a backing array: \<open>elems\<close> are the bytes the slice
  shows (its length), \<open>spare\<close> the bytes of the backing array after them (up to its
  capacity). The slice expression \<open>b[:high]\<close> of a slice is in range when
  \<open>high \<le> cap(b)\<close>, whatever the length is, and panics otherwise.
\<close>

record byteSlice =
  elems :: "8 word list"
  spare :: "8 word list"

definition len :: "byteSlice \<Rightarrow> nat" where
  "len b = length (elems b)"

definition cap :: "byteSlice \<Rightarrow> nat" where
  "cap b = length (elems b) + length (spare b)"

datatype panic = SliceBoundsOutOfRange nat nat

definition sliceTo :: "byteSlice \<Rightarrow> nat \<Rightarrow> panic + byteSlice" where
  "sliceTo b high =
     (if high \<le> cap b
      then Inr \<lparr>elems = take high (elems b @ spare b), spare = drop high (elems b @ spare b)\<rparr>
      else Inl (SliceBoundsOutOfRange high (cap b)))"

text \<open>
  Modelled from the spec: the declaration of \<open>processor.Document\<close> is in another package.
  The spec has a document as a byte payload \<open>Blob\<close> with the metadata \<open>Format\<close> and
  \<open>Type\<close>, and these are the three fields the file reads: \<open>Blob\<close> is sliced and then
  converted with \<open>string(...)\<close>, as a slice of bytes is, and \<open>Format\<close> and \<open>Type\<close> are
  printed. The channel carries pointers to documents; the model has the documents
  themselves, so a nil pointer is not a document.
\<close>

record Document =
  Blob :: byteSlice
  Type :: string
  Format :: string

text \<open>
  Modelled from the spec: the declaration of \<open>assembler.Graph\<close> is in another package.
  The spec has a graph as a pair of ordered sequences, \<open>Nodes\<close> and \<open>Edges\<close>, and the file
  builds one from these two fields (lines 189-192). Nodes and edges are opaque here.
\<close>

record ('n, 'e) Graph =
  Nodes :: "'n list"
  Edges :: "'e list"

text \<open>
  Modelled from the spec: the method \<open>AppendGraph\<close> of \<open>assembler.Graph\<close> is not in this
  file. The spec defines merging two graphs as the concatenation of their \<open>Nodes\<close> and of
  their \<open>Edges\<close>, with no deduplication and no identity reconciliation.
\<close>

definition AppendGraph :: "('n, 'e) Graph \<Rightarrow> ('n, 'e) Graph \<Rightarrow> ('n, 'e) Graph" where
  "AppendGraph combined g =
     \<lparr>Nodes = Nodes combined @ Nodes g, Edges = Edges combined @ Edges g\<rparr>"

subsection \<open>Effects: the logger and the graph store\<close>

text \<open>One constructor for each call of the logger in \<open>Run\<close>, with the values it prints.\<close>

datatype logEntry =
    EmittingDoc "8 word list" string string
  | UnableToProcess error string string
  | UnableToIngest error
  | UnableToAssemble error
  | CollectorEndedWithError error
  | CollectorEndedGracefully

text \<open>
  What the pipeline does to the outside: the lines written to the logger and the graphs
  handed to \<open>assembler.StoreGraph\<close>, one entry for each call, in order.
\<close>

record ('n, 'e) effects =
  logger :: "logEntry list"
  storeCalls :: "('n, 'e) Graph list"

definition logf :: "logEntry \<Rightarrow> ('n, 'e) effects \<Rightarrow> ('n, 'e) effects" where
  "logf entry w = w\<lparr>logger := logger w @ [entry]\<rparr>"

subsection \<open>The pipeline closures\<close>



text \<open>
  Modelled from the spec: \<open>graphdb.CreateAuthTokenWithUsernameAndPassword\<close> is not in this
  file; the spec gives it as \<open>createAuthToken(user, pass, realm) \<rightarrow> token\<close>, building the
  connection credentials. The token is modelled by the three values it was built from.
\<close>

datatype authToken = AuthToken (tokenUser: string) (tokenPass: string) (tokenRealm: string)

definition CreateAuthTokenWithUsernameAndPassword :: "string \<Rightarrow> string \<Rightarrow> string \<Rightarrow> authToken" where
  "CreateAuthTokenWithUsernameAndPassword username password rlm = AuthToken username password rlm"

text \<open>
  The graph built by the closure that \<open>getAssembler\<close> returns (lines 189-195): it starts
  with no nodes and no edges, and the loop appends each graph of \<open>gs\<close> in turn.
\<close>

definition combined :: "('n, 'e) Graph list \<Rightarrow> ('n, 'e) Graph" where
  "combined gs = foldl AppendGraph \<lparr>Nodes = [], Edges = []\<rparr> gs"

text \<open>
  The closure itself (lines 188-201). \<open>StoreGraph\<close> is a parameter: given the client and
  the graphs handed to it by the calls before, it says whether storing this graph fails.
  Each call is recorded in \<open>storeCalls\<close>.
\<close>

definition assemblerFunc ::
  "('c \<Rightarrow> ('n, 'e) Graph list \<Rightarrow> ('n, 'e) Graph \<Rightarrow> error option) \<Rightarrow> 'c \<Rightarrow>
   ('n, 'e) Graph list \<Rightarrow> ('n, 'e) effects \<Rightarrow> ('n, 'e) effects \<times> error option" where
  "assemblerFunc StoreGraph client gs w =
     (let g = combined gs
      in case StoreGraph client (storeCalls w) g of
           Some err \<Rightarrow> (w\<lparr>storeCalls := storeCalls w @ [g]\<rparr>, Some err)
         | None \<Rightarrow> (w\<lparr>storeCalls := storeCalls w @ [g]\<rparr>, None))"

text \<open>\<open>getAssembler\<close> (lines 182-202); \<open>graphdb.NewGraphClient\<close> is a parameter.\<close>

definition getAssembler ::
  "(string \<Rightarrow> authToken \<Rightarrow> error + 'c) \<Rightarrow>
   ('c \<Rightarrow> ('n, 'e) Graph list \<Rightarrow> ('n, 'e) Graph \<Rightarrow> error option) \<Rightarrow> options \<Rightarrow>
   error + (('n, 'e) Graph list \<Rightarrow> ('n, 'e) effects \<Rightarrow> ('n, 'e) effects \<times> error option)" where
  "getAssembler NewGraphClient StoreGraph opts =
     (let authToken = CreateAuthTokenWithUsernameAndPassword
                        (user opts) (pass opts) (options.realm opts)
      in case NewGraphClient (options.dbAddr opts) authToken of
           Inl err \<Rightarrow> Inl err
         | Inr client \<Rightarrow> Inr (assemblerFunc StoreGraph client))"

text \<open>
  The closure \<open>emit\<close> (lines 98-116) over the three pipeline functions. It returns
  nothing: its result is what it did to the logger and the store.
\<close>

definition emit ::
  "(Document \<Rightarrow> error + 't) \<Rightarrow> ('t \<Rightarrow> error + ('n, 'e) Graph list) \<Rightarrow>
   (('n, 'e) Graph list \<Rightarrow> ('n, 'e) effects \<Rightarrow> ('n, 'e) effects \<times> error option) \<Rightarrow>
   Document \<Rightarrow> ('n, 'e) effects \<Rightarrow> ('n, 'e) effects" where
  "emit processorFunc ingestorFunc assembler d w =
     (case processorFunc d of
        Inl err \<Rightarrow> logf (UnableToProcess err (Format d) (Type d)) w
      | Inr docTree \<Rightarrow>
          (case ingestorFunc docTree of
             Inl err \<Rightarrow> logf (UnableToIngest err) w
           | Inr graphs \<Rightarrow>
               (case assembler graphs w of
                  (w', Some err) \<Rightarrow> logf (UnableToAssemble err) w'
                | (w', None) \<Rightarrow> w')))"

subsection \<open>The coordinator: wait loop and drain loop\<close>

text \<open>
  \<open>collector.Collect\<close> (line 119) starts the registered collectors and returns the two
  channels they share and their number. The collectors run concurrently with the two
  loops of \<open>Run\<close> (lines 124-145), so a run is an interleaving of steps, given as a list
  of events:
  \<^item> \<open>Send p d\<close>: collector \<open>p\<close> writes the document \<open>d\<close> to \<open>docChan\<close>;
  \<^item> \<open>Done p err\<close>: collector \<open>p\<close> writes its completion signal to \<open>errChan\<close>, once;
  \<^item> \<open>CaseDoc\<close>, \<open>CaseErr\<close>: the wait loop's condition holds and its \<open>select\<close> takes the
    first, respectively the second case;
  \<^item> \<open>ExitWait\<close>: the wait loop's condition fails;
  \<^item> \<open>DrainDoc\<close>: \<open>len(docChan) > 0\<close> and the drain loop runs its body;
  \<^item> \<open>ExitDrain\<close>: \<open>len(docChan) > 0\<close> fails and \<open>Run\<close> returns.

  Channels are FIFO buffers without a bound: a bounded or unbuffered channel only delays
  a \<open>Send\<close> or \<open>Done\<close> until the buffer has room, so each of its runs is one of these.
  \<open>observed\<close> and \<open>emitted\<close> are history variables: the collectors whose signal the
  coordinator has received, and the documents passed to \<open>emit\<close>, in order.
  \<open>numCollectors\<close> is an \<open>int\<close> in the source; it counts the collectors started and is
  a natural number here.
\<close>

datatype location = WaitLoop | DrainLoop | Returned | Panicked panic

datatype event =
    Send nat Document
  | Done nat "error option"
  | CaseDoc
  | CaseErr
  | ExitWait
  | DrainDoc
  | ExitDrain

record ('n, 'e) state =
  docChan :: "Document list"
  errChan :: "(nat \<times> error option) list"
  collectorsDone :: nat
  pc :: location
  observed :: "nat list"
  emitted :: "Document list"
  world :: "('n, 'e) effects"

definition initial :: "('n, 'e) effects \<Rightarrow> ('n, 'e) state" where
  "initial w =
     \<lparr>docChan = [], errChan = [], collectorsDone = 0, pc = WaitLoop,
      observed = [], emitted = [], world = w\<rparr>"

text \<open>
  The collectors that have written their completion signal: those whose signal the
  coordinator has received and those whose signal waits in \<open>errChan\<close>.
\<close>

definition signalled :: "('n, 'e) state \<Rightarrow> nat list" where
  "signalled s = observed s @ map fst (errChan s)"

text \<open>
  A panic ends the process and its collectors with it. After \<open>Run\<close> has returned a
  collector may still write: that is the write racing with the last test of the drain
  loop, which nothing reads.
\<close>

definition alive :: "('n, 'e) state \<Rightarrow> bool" where
  "alive s = (case pc s of Panicked p \<Rightarrow> False | _ \<Rightarrow> True)"

text \<open>
  The two statements both loops run on a received document (lines 128-129 and 143-144):
  the arguments of \<open>logger.Infof\<close> are evaluated first, \<open>d.Blob[:10]\<close> among them, and a
  panic there is not recovered.
\<close>

definition handleDoc ::
  "(Document \<Rightarrow> ('n, 'e) effects \<Rightarrow> ('n, 'e) effects) \<Rightarrow> Document \<Rightarrow>
   ('n, 'e) state \<Rightarrow> ('n, 'e) state" where
  "handleDoc em d s =
     (case sliceTo (Blob d) 10 of
        Inl p \<Rightarrow> s\<lparr>pc := Panicked p\<rparr>
      | Inr preview \<Rightarrow>
          s\<lparr>emitted := emitted s @ [d],
            world := em d (logf (EmittingDoc (elems preview) (Format d) (Type d)) (world s))\<rparr>)"

text \<open>The second case of the \<open>select\<close> (lines 130-136).\<close>

definition handleErr :: "nat \<Rightarrow> error option \<Rightarrow> ('n, 'e) state \<Rightarrow> ('n, 'e) state" where
  "handleErr p err s =
     (let w = (case err of
                 Some e \<Rightarrow> logf (CollectorEndedWithError e) (world s)
               | None \<Rightarrow> logf CollectorEndedGracefully (world s))
      in s\<lparr>observed := observed s @ [p], world := w,
           collectorsDone := collectorsDone s + 1\<rparr>)"

text \<open>
  Modelled from the spec: \<open>collector.Collect\<close> and the collectors are not in this file.
  In the spec each registered source writes documents to the shared document channel
  and signals its own completion, with an error or with nil, on the second channel, and
  the count returned is the number of sources. A collector is known by its index below
  \<open>numCollectors\<close>; it may write documents at any time and writes one completion signal.
  \<open>None\<close> when the event cannot happen in the state.
\<close>

fun collectorStep :: "nat \<Rightarrow> event \<Rightarrow> ('n, 'e) state \<Rightarrow> ('n, 'e) state option" where
  "collectorStep numCollectors (Send p d) s =
     (if alive s \<and> p < numCollectors
      then Some (s\<lparr>docChan := docChan s @ [d]\<rparr>) else None)"
| "collectorStep numCollectors (Done p err) s =
     (if alive s \<and> p < numCollectors \<and> p \<notin> set (signalled s)
      then Some (s\<lparr>errChan := errChan s @ [(p, err)]\<rparr>) else None)"
| "collectorStep numCollectors ev s = None"

text \<open>
  One step of the system: a step of the two loops of \<open>Run\<close> (lines 124-145), or a write
  of a collector. \<open>None\<close> when the event cannot happen in the state.
\<close>

fun step ::
  "(Document \<Rightarrow> ('n, 'e) effects \<Rightarrow> ('n, 'e) effects) \<Rightarrow> nat \<Rightarrow> event \<Rightarrow>
   ('n, 'e) state \<Rightarrow> ('n, 'e) state option" where
  "step em numCollectors CaseDoc s =
     (case docChan s of
        [] \<Rightarrow> None
      | d # rest \<Rightarrow>
          if pc s = WaitLoop \<and> collectorsDone s < numCollectors
          then Some (handleDoc em d (s\<lparr>docChan := rest\<rparr>)) else None)"
| "step em numCollectors CaseErr s =
     (case errChan s of
        [] \<Rightarrow> None
      | (p, err) # rest \<Rightarrow>
          if pc s = WaitLoop \<and> collectorsDone s < numCollectors
          then Some (handleErr p err (s\<lparr>errChan := rest\<rparr>)) else None)"
| "step em numCollectors ExitWait s =
     (if pc s = WaitLoop \<and> \<not> collectorsDone s < numCollectors
      then Some (s\<lparr>pc := DrainLoop\<rparr>) else None)"
| "step em numCollectors DrainDoc s =
     (case docChan s of
        [] \<Rightarrow> None
      | d # rest \<Rightarrow>
          if pc s = DrainLoop
          then Some (handleDoc em d (s\<lparr>docChan := rest\<rparr>)) else None)"
| "step em numCollectors ExitDrain s =
     (if pc s = DrainLoop \<and> \<not> length (docChan s) > 0
      then Some (s\<lparr>pc := Returned\<rparr>) else None)"
| "step em numCollectors ev s = collectorStep numCollectors ev s"

fun run ::
  "(Document \<Rightarrow> ('n, 'e) effects \<Rightarrow> ('n, 'e) effects) \<Rightarrow> nat \<Rightarrow> event list \<Rightarrow>
   ('n, 'e) state \<Rightarrow> ('n, 'e) state option" where
  "run em numCollectors [] s = Some s"
| "run em numCollectors (ev # evs) s =
     (case step em numCollectors ev s of
        None \<Rightarrow> None
      | Some s' \<Rightarrow> run em numCollectors evs s')"

text \<open>The documents written to \<open>docChan\<close> and the signals received, along a list of events.\<close>

fun sent :: "event list \<Rightarrow> Document list" where
  "sent [] = []"
| "sent (Send p d # evs) = d # sent evs"
| "sent (ev # evs) = sent evs"

fun signalsReceived :: "event list \<Rightarrow> nat" where
  "signalsReceived [] = 0"
| "signalsReceived (CaseErr # evs) = Suc (signalsReceived evs)"
| "signalsReceived (ev # evs) = signalsReceived evs"

text \<open>
  The collectors keep the convention along a run from \<open>s\<close>: none writes a document
  after the coordinator has received its completion signal.
\<close>

fun quiesced ::
  "(Document \<Rightarrow> ('n, 'e) effects \<Rightarrow> ('n, 'e) effects) \<Rightarrow> nat \<Rightarrow> event list \<Rightarrow>
   ('n, 'e) state \<Rightarrow> bool" where
  "quiesced em numCollectors [] s = True"
| "quiesced em numCollectors (ev # evs) s =
     ((case ev of Send p d \<Rightarrow> p \<notin> set (observed s) | _ \<Rightarrow> True) \<and>
      (case step em numCollectors ev s of
         None \<Rightarrow> True
       | Some s' \<Rightarrow> quiesced em numCollectors evs s'))"

subsection \<open>Invariant of the protocol between the collectors and the coordinator\<close>

text \<open>
  The coordinator has counted the signals it received, no collector has signalled
  twice, there are never more signals than collectors, and the wait loop is left only
  with all signals counted.
\<close>

definition protocolInv :: "nat \<Rightarrow> ('n, 'e) state \<Rightarrow> bool" where
  "protocolInv numCollectors s =
     (length (observed s) = collectorsDone s \<and>
      distinct (signalled s) \<and>
      (\<forall>p \<in> set (signalled s). p < numCollectors) \<and>
      collectorsDone s \<le> numCollectors \<and>
      (pc s = DrainLoop \<or> pc s = Returned \<longrightarrow> collectorsDone s = numCollectors))"

subsection \<open>Example values\<close>

text \<open>The flags with their defaults (lines 53-55) and a given value of \<open>--creds\<close>.\<close>

definition flagsWithCreds :: "string \<Rightarrow> flags" where
  "flagsWithCreds c =
     \<lparr>flags.dbAddr = ''neo4j://localhost:7687'', creds = c, flags.realm = ''neo4j''\<rparr>"

text \<open>
  Documents: one of two bytes in a backing array of two, one of three bytes in a
  backing array of ten, one of twelve bytes, and the last one again in another format.
\<close>

definition shortDoc :: Document where
  "shortDoc = \<lparr>Blob = \<lparr>elems = [104, 105], spare = []\<rparr>, Type = ''SLSA'', Format = ''JSON''\<rparr>"

definition roomyDoc :: Document where
  "roomyDoc =
     \<lparr>Blob = \<lparr>elems = [123, 125, 10], spare = [0, 0, 0, 0, 0, 0, 0]\<rparr>,
      Type = ''SLSA'', Format = ''JSON''\<rparr>"

definition longDoc :: Document where
  "longDoc =
     \<lparr>Blob = \<lparr>elems = [123, 34, 97, 34, 58, 34, 98, 34, 125, 32, 32, 10], spare = []\<rparr>,
      Type = ''SLSA'', Format = ''JSON''\<rparr>"

definition xmlDoc :: Document where
  "xmlDoc = longDoc\<lparr>Format := ''XML''\<rparr>"

text \<open>
  A pipeline to run the examples with: processing fails on a document of another format
  than JSON, ingestion fails on a tree of fewer than five bytes and gives one graph
  otherwise, and the store takes one graph and is full after that.
\<close>

definition exampleProcess :: "Document \<Rightarrow> error + 8 word list" where
  "exampleProcess d =
     (if Format d = ''JSON'' then Inr (elems (Blob d)) else Inl ''unsupported format'')"

definition exampleParse :: "8 word list \<Rightarrow> error + (nat, nat \<times> nat) Graph list" where
  "exampleParse t =
     (if length t < 5 then Inl ''no predicate''
      else Inr [\<lparr>Nodes = [length t], Edges = []\<rparr>])"


definition exampleStore ::
  "unit \<Rightarrow> (nat, nat \<times> nat) Graph list \<Rightarrow> (nat, nat \<times> nat) Graph \<Rightarrow> error option" where
  "exampleStore client earlier g = (if earlier = [] then None else Some ''store is full'')"

definition exampleEmit ::
  "Document \<Rightarrow> (nat, nat \<times> nat) effects \<Rightarrow> (nat, nat \<times> nat) effects" where
  "exampleEmit = emit exampleProcess exampleParse (assemblerFunc exampleStore ())"

definition noEffects :: "(nat, nat \<times> nat) effects" where
  "noEffects = \<lparr>logger = [], storeCalls = []\<rparr>"

section \<open>Properties\<close>

subsection \<open>Merging graphs\<close>

lemma foldl_AppendGraph:
  "foldl AppendGraph g gs =
     \<lparr>Nodes = Nodes g @ concat (map Nodes gs), Edges = Edges g @ concat (map Edges gs)\<rparr>"
  by (induction gs arbitrary: g) (simp_all add: AppendGraph_def)

text \<open>
  C4. For every list of graphs, the empty one included, the graph the assembler builds
  has as nodes the concatenation of the graphs' nodes in the order of the list, and
  likewise for the edges, nothing removed. For two graphs the lengths add up, the first
  graph's elements coming first; for no graph the result has no node and no edge.
\<close>

theorem combined_is_concatenation:
  fixes gs :: "('n, 'e) Graph list" and g1 g2 :: "('n, 'e) Graph"
  shows
  "combined gs = \<lparr>Nodes = concat (map Nodes gs), Edges = concat (map Edges gs)\<rparr> \<and>
   combined [g1, g2] = \<lparr>Nodes = Nodes g1 @ Nodes g2, Edges = Edges g1 @ Edges g2\<rparr> \<and>
   length (Nodes (combined [g1, g2])) = length (Nodes g1) + length (Nodes g2) \<and>
   length (Edges (combined [g1, g2])) = length (Edges g1) + length (Edges g2) \<and>
   combined ([] :: ('n, 'e) Graph list) = \<lparr>Nodes = [], Edges = []\<rparr>"
proof -
  have concat: "combined hs = \<lparr>Nodes = concat (map Nodes hs), Edges = concat (map Edges hs)\<rparr>"
    for hs :: "('n, 'e) Graph list"
    unfolding combined_def foldl_AppendGraph by simp
  show ?thesis
    using concat [of gs] concat [of "[g1, g2]"] concat [of "[]"] by simp
qed

subsection \<open>Validation of the flags\<close>

lemma length_SplitFrom: "length (SplitFrom cur sep s) = count_list s sep + 1"
  by (induction s arbitrary: cur) simp_all

lemma length_Split: "length (Split s sep) = count_list s sep + 1"
  by (simp add: Split_def length_SplitFrom)

lemma SplitFrom_no_sep: "sep \<notin> set s \<Longrightarrow> SplitFrom cur sep s = [cur @ s]"
  by (induction s arbitrary: cur) auto

lemma SplitFrom_at_sep:
  "sep \<notin> set u \<Longrightarrow> SplitFrom cur sep (u @ sep # v) = (cur @ u) # SplitFrom [] sep v"
  by (induction u arbitrary: cur) auto

lemma Split_user_pass:
  "sep \<notin> set u \<Longrightarrow> sep \<notin> set v \<Longrightarrow> Split (u @ sep # v) sep = [u, v]"
  by (simp add: Split_def SplitFrom_at_sep SplitFrom_no_sep)

lemma validateFlags_bad_creds:
  "length (Split (creds fl) CHR '':'') \<noteq> 2 \<Longrightarrow>
   validateFlags fl args = (zero_options, Some ''creds flag not in correct format user:pass'')"
  by (simp add: validateFlags_def Let_def)

lemma validateFlags_good_creds:
  "length (Split (creds fl) CHR '':'') = 2 \<Longrightarrow>
   validateFlags fl args =
     (if length args \<noteq> 1
      then (zero_options\<lparr>user := Split (creds fl) CHR '':'' ! 0,
                         pass := Split (creds fl) CHR '':'' ! 1,
                         options.dbAddr := flags.dbAddr fl\<rparr>,
            Some ''expected positional argument for file_path'')
      else (zero_options\<lparr>user := Split (creds fl) CHR '':'' ! 0,
                         pass := Split (creds fl) CHR '':'' ! 1,
                         options.dbAddr := flags.dbAddr fl,
                         path := args ! 0\<rparr>, None))"
  by (simp add: validateFlags_def Let_def)

lemma Split_alice_secret: "Split ''alice:secret'' CHR '':'' = [''alice'', ''secret'']"
  by (simp add: Split_def)

lemma Split_alice: "Split ''alice'' CHR '':'' = [''alice'']"
  by (simp add: Split_def)

lemma Split_a_b_c: "Split ''a:b:c'' CHR '':'' = [''a'', ''b'', ''c'']"
  by (simp add: Split_def)

text \<open>
  C6. The check of the creds flag depends on nothing but the number of parts the flag
  splits into on \<open>:\<close>, which is two exactly when the flag holds one colon. With any
  other number than two, \<open>validateFlags\<close> fails with the
  error of the creds format. With two parts that error does not occur, the user and the
  password of the options are the two parts, and with one positional argument there is
  no error at all. \<open>alice:secret\<close> gives the user \<open>alice\<close> and the password \<open>secret\<close>
  and no error; \<open>alice\<close> and \<open>a:b:c\<close> give the error.
\<close>

theorem validateFlags_creds_shape:
  "(length (Split (creds fl) CHR '':'') = 2 \<longleftrightarrow> count_list (creds fl) CHR '':'' = 1) \<and>
   (length (Split (creds fl) CHR '':'') \<noteq> 2 \<longrightarrow>
      validateFlags fl args =
        (zero_options, Some ''creds flag not in correct format user:pass'')) \<and>
   (length (Split (creds fl) CHR '':'') = 2 \<longrightarrow>
      snd (validateFlags fl args) \<noteq> Some ''creds flag not in correct format user:pass'' \<and>
      user (fst (validateFlags fl args)) = Split (creds fl) CHR '':'' ! 0 \<and>
      pass (fst (validateFlags fl args)) = Split (creds fl) CHR '':'' ! 1) \<and>
   (length (Split (creds fl) CHR '':'') = 2 \<and> length args = 1 \<longrightarrow>
      snd (validateFlags fl args) = None) \<and>
   user (fst (validateFlags (fl\<lparr>creds := ''alice:secret''\<rparr>) [p])) = ''alice'' \<and>
   pass (fst (validateFlags (fl\<lparr>creds := ''alice:secret''\<rparr>) [p])) = ''secret'' \<and>
   snd (validateFlags (fl\<lparr>creds := ''alice:secret''\<rparr>) [p]) = None \<and>
   snd (validateFlags (fl\<lparr>creds := ''alice''\<rparr>) args) =
     Some ''creds flag not in correct format user:pass'' \<and>
   snd (validateFlags (fl\<lparr>creds := ''a:b:c''\<rparr>) args) =
     Some ''creds flag not in correct format user:pass''"
proof -
  have bad: "length (Split (creds fl) CHR '':'') \<noteq> 2 \<longrightarrow>
      validateFlags fl args =
        (zero_options, Some ''creds flag not in correct format user:pass'')"
    by (simp add: validateFlags_bad_creds)
  have good: "length (Split (creds fl) CHR '':'') = 2 \<longrightarrow>
      snd (validateFlags fl args) \<noteq> Some ''creds flag not in correct format user:pass'' \<and>
      user (fst (validateFlags fl args)) = Split (creds fl) CHR '':'' ! 0 \<and>
      pass (fst (validateFlags fl args)) = Split (creds fl) CHR '':'' ! 1"
    by (simp add: validateFlags_good_creds)
  have one: "length (Split (creds fl) CHR '':'') = 2 \<and> length args = 1 \<longrightarrow>
      snd (validateFlags fl args) = None"
    by (simp add: validateFlags_good_creds)
  have alice_secret:
    "validateFlags (fl\<lparr>creds := ''alice:secret''\<rparr>) [p] =
       (zero_options\<lparr>user := ''alice'', pass := ''secret'',
                     options.dbAddr := flags.dbAddr fl, path := p\<rparr>, None)"
    by (simp add: validateFlags_good_creds Split_alice_secret)
  have alice: "snd (validateFlags (fl\<lparr>creds := ''alice''\<rparr>) args) =
     Some ''creds flag not in correct format user:pass''"
    by (simp add: validateFlags_bad_creds Split_alice)
  have abc: "snd (validateFlags (fl\<lparr>creds := ''a:b:c''\<rparr>) args) =
     Some ''creds flag not in correct format user:pass''"
    by (simp add: validateFlags_bad_creds Split_a_b_c)
  have colons: "length (Split (creds fl) CHR '':'') = 2 \<longleftrightarrow>
      count_list (creds fl) CHR '':'' = 1"
    unfolding length_Split by simp
  from colons bad good one alice_secret alice abc show ?thesis
    by simp
qed

theorem validateFlags_creds_shape_witness:
  "length (Split (creds (flagsWithCreds ''alice:secret'')) CHR '':'') = 2 \<and>
   length [''docs''] = 1 \<and>
   snd (validateFlags (flagsWithCreds ''alice:secret'') [''docs'']) = None \<and>
   user (fst (validateFlags (flagsWithCreds ''alice:secret'') [''docs''])) = ''alice'' \<and>
   pass (fst (validateFlags (flagsWithCreds ''alice:secret'') [''docs''])) = ''secret'' \<and>
   length (Split (creds (flagsWithCreds ''a:b:c'')) CHR '':'') \<noteq> 2 \<and>
   validateFlags (flagsWithCreds ''a:b:c'') [''docs''] =
     (zero_options, Some ''creds flag not in correct format user:pass'')"
  using validateFlags_creds_shape [of "flagsWithCreds ''alice:secret''" "[''docs'']"]
    validateFlags_creds_shape [of "flagsWithCreds ''a:b:c''" "[''docs'']"]
  by (simp add: flagsWithCreds_def Split_alice_secret Split_a_b_c)

text \<open>
  C7, as stated, fails: the creds flag is checked first. With the creds \<open>alice\<close> and no
  positional argument the error is not the one of the positional argument, and with one
  positional argument the path of the options is not that argument.
\<close>

theorem creds_checked_before_args_counterexample:
  "snd (validateFlags (flagsWithCreds ''alice'') []) \<noteq>
     Some ''expected positional argument for file_path'' \<and>
   path (fst (validateFlags (flagsWithCreds ''alice'') [''docs''])) \<noteq> ''docs''"
  by (simp add: validateFlags_bad_creds flagsWithCreds_def Split_alice zero_options_def)

text \<open>
  C7, amended. A list of arguments that does not hold exactly one element always makes
  \<open>validateFlags\<close> return an error. When the creds flag splits into exactly two parts
  on \<open>:\<close>, that error is \<open>expected positional argument for file_path\<close>, for no argument
  and for two or more alike, and with exactly one argument there is no error and the
  path of the options is that argument. When the creds flag has any other shape,
  \<open>validateFlags\<close> returns the error of the creds format with the zero options, whatever
  the arguments are, one argument included: the arguments are not looked at and the path
  stays empty.
\<close>

theorem validateFlags_args_count:
  "(length args \<noteq> 1 \<longrightarrow> snd (validateFlags fl args) \<noteq> None) \<and>
   (length (Split (creds fl) CHR '':'') = 2 \<and> length args \<noteq> 1 \<longrightarrow>
      snd (validateFlags fl args) = Some ''expected positional argument for file_path'') \<and>
   (length (Split (creds fl) CHR '':'') = 2 \<longrightarrow>
      snd (validateFlags fl []) = Some ''expected positional argument for file_path'' \<and>
      snd (validateFlags fl (a # b # others)) =
        Some ''expected positional argument for file_path'') \<and>
   (length (Split (creds fl) CHR '':'') = 2 \<and> length args = 1 \<longrightarrow>
      snd (validateFlags fl args) = None \<and>
      path (fst (validateFlags fl args)) = args ! 0) \<and>
   (length (Split (creds fl) CHR '':'') = 2 \<longrightarrow>
      snd (validateFlags fl [a]) = None \<and> path (fst (validateFlags fl [a])) = a) \<and>
   (length (Split (creds fl) CHR '':'') \<noteq> 2 \<longrightarrow>
      validateFlags fl args =
        (zero_options, Some ''creds flag not in correct format user:pass'') \<and>
      snd (validateFlags fl args) \<noteq> Some ''expected positional argument for file_path'' \<and>
      path (fst (validateFlags fl args)) = [] \<and>
      validateFlags fl [] =
        (zero_options, Some ''creds flag not in correct format user:pass'') \<and>
      validateFlags fl [a] =
        (zero_options, Some ''creds flag not in correct format user:pass'') \<and>
      validateFlags fl (a # b # others) =
        (zero_options, Some ''creds flag not in correct format user:pass''))"
proof -
  have always: "length args \<noteq> 1 \<longrightarrow> snd (validateFlags fl args) \<noteq> None"
    by (cases "length (Split (creds fl) CHR '':'') = 2")
      (simp_all add: validateFlags_good_creds validateFlags_bad_creds)
  have rest: "length (Split (creds fl) CHR '':'') = 2 \<longrightarrow>
      (length args \<noteq> 1 \<longrightarrow>
         snd (validateFlags fl args) = Some ''expected positional argument for file_path'') \<and>
      snd (validateFlags fl []) = Some ''expected positional argument for file_path'' \<and>
      snd (validateFlags fl (a # b # others)) =
        Some ''expected positional argument for file_path'' \<and>
      (length args = 1 \<longrightarrow>
         snd (validateFlags fl args) = None \<and> path (fst (validateFlags fl args)) = args ! 0) \<and>
      snd (validateFlags fl [a]) = None \<and> path (fst (validateFlags fl [a])) = a"
    by (simp add: validateFlags_good_creds)
  have first: "length (Split (creds fl) CHR '':'') \<noteq> 2 \<longrightarrow>
      validateFlags fl args =
        (zero_options, Some ''creds flag not in correct format user:pass'') \<and>
      snd (validateFlags fl args) \<noteq> Some ''expected positional argument for file_path'' \<and>
      path (fst (validateFlags fl args)) = [] \<and>
      validateFlags fl [] =
        (zero_options, Some ''creds flag not in correct format user:pass'') \<and>
      validateFlags fl [a] =
        (zero_options, Some ''creds flag not in correct format user:pass'') \<and>
      validateFlags fl (a # b # others) =
        (zero_options, Some ''creds flag not in correct format user:pass'')"
    by (simp add: validateFlags_bad_creds zero_options_def)
  from always rest first show ?thesis
    by blast
qed

theorem validateFlags_args_count_witness:
  "length (Split (creds (flagsWithCreds ''alice:secret'')) CHR '':'') = 2 \<and>
   snd (validateFlags (flagsWithCreds ''alice:secret'') []) =
     Some ''expected positional argument for file_path'' \<and>
   snd (validateFlags (flagsWithCreds ''alice:secret'') [''docs'', ''more'']) =
     Some ''expected positional argument for file_path'' \<and>
   snd (validateFlags (flagsWithCreds ''alice:secret'') [''docs'']) = None \<and>
   path (fst (validateFlags (flagsWithCreds ''alice:secret'') [''docs''])) = ''docs'' \<and>
   snd (validateFlags (flagsWithCreds ''alice'') []) \<noteq> None \<and>
   length (Split (creds (flagsWithCreds ''alice'')) CHR '':'') \<noteq> 2 \<and>
   validateFlags (flagsWithCreds ''alice'') [] =
     (zero_options, Some ''creds flag not in correct format user:pass'') \<and>
   validateFlags (flagsWithCreds ''alice'') [''docs''] =
     (zero_options, Some ''creds flag not in correct format user:pass'') \<and>
   validateFlags (flagsWithCreds ''alice'') [''docs'', ''more''] =
     (zero_options, Some ''creds flag not in correct format user:pass'') \<and>
   path (fst (validateFlags (flagsWithCreds ''alice'') [''docs''])) = []"
  using validateFlags_args_count
      [of "[]" "flagsWithCreds ''alice:secret''" "''docs''" "''more''" "[]"]
    validateFlags_args_count
      [of "[''docs'']" "flagsWithCreds ''alice:secret''" "''docs''" "''more''" "[]"]
    validateFlags_args_count [of "[]" "flagsWithCreds ''alice''" "''docs''" "''more''" "[]"]
    validateFlags_args_count
      [of "[''docs'']" "flagsWithCreds ''alice''" "''docs''" "''more''" "[]"]
  by (simp add: flagsWithCreds_def Split_alice_secret Split_alice)

lemma validateFlags_realm: "options.realm (fst (validateFlags fl args)) = []"
  by (simp add: validateFlags_def Let_def zero_options_def)

text \<open>
  C8. The code at \<open>--creds alice:secret --realm neo4j docs\<close>: validation succeeds, the
  realm of the options it returns is the empty string and not the flag's \<open>neo4j\<close>, and
  \<open>getAssembler\<close> builds the token of the client from that empty realm.
\<close>

theorem realm_flag_not_copied:
  "flags.realm (flagsWithCreds ''alice:secret'') = ''neo4j'' \<and>
   validateFlags (flagsWithCreds ''alice:secret'') [''docs''] =
     (\<lparr>options.dbAddr = ''neo4j://localhost:7687'', user = ''alice'', pass = ''secret'',
       options.realm = [], path = ''docs''\<rparr>, None) \<and>
   getAssembler (\<lambda>address token. Inr (address, token)) StoreGraph
       (fst (validateFlags (flagsWithCreds ''alice:secret'') [''docs''])) =
     Inr (assemblerFunc StoreGraph
            (''neo4j://localhost:7687'', AuthToken ''alice'' ''secret'' []))"
proof -
  have opts: "validateFlags (flagsWithCreds ''alice:secret'') [''docs''] =
     (\<lparr>options.dbAddr = ''neo4j://localhost:7687'', user = ''alice'', pass = ''secret'',
       options.realm = [], path = ''docs''\<rparr>, None)"
    by (simp add: validateFlags_good_creds flagsWithCreds_def Split_alice_secret
        zero_options_def)
  show ?thesis
    unfolding opts
    by (simp add: flagsWithCreds_def getAssembler_def
        CreateAuthTokenWithUsernameAndPassword_def)
qed

subsection \<open>The pipeline of one document\<close>

lemma emit_process_fails:
  "processorFunc d = Inl err \<Longrightarrow>
   emit processorFunc ingestorFunc assembler d w = logf (UnableToProcess err (Format d) (Type d)) w"
  by (simp add: emit_def)

lemma emit_ingest_fails:
  "processorFunc d = Inr docTree \<Longrightarrow> ingestorFunc docTree = Inl err \<Longrightarrow>
   emit processorFunc ingestorFunc assembler d w = logf (UnableToIngest err) w"
  by (simp add: emit_def)

lemma emit_assemble_fails:
  "processorFunc d = Inr docTree \<Longrightarrow> ingestorFunc docTree = Inr graphs \<Longrightarrow>
   assembler graphs w = (w', Some err) \<Longrightarrow>
   emit processorFunc ingestorFunc assembler d w = logf (UnableToAssemble err) w'"
  by (simp add: emit_def)

lemma emit_succeeds:
  "processorFunc d = Inr docTree \<Longrightarrow> ingestorFunc docTree = Inr graphs \<Longrightarrow>
   assembler graphs w = (w', None) \<Longrightarrow>
   emit processorFunc ingestorFunc assembler d w = w'"
  by (simp add: emit_def)

lemma storeCalls_logf: "storeCalls (logf entry w) = storeCalls w"
  by (simp add: logf_def)



lemma storeCalls_emit_unchanged:
  "processorFunc d = Inl err \<or> (\<exists>docTree. processorFunc d = Inr docTree \<and> ingestorFunc docTree = Inl err) \<Longrightarrow>
   storeCalls (emit processorFunc ingestorFunc assembler d w) = storeCalls w"
  by (auto simp: emit_def storeCalls_logf)






subsection \<open>One received document\<close>

lemma len_le_cap: "len b \<le> cap b"
  by (simp add: len_def cap_def)

lemma handleDoc_out_of_bounds:
  "cap (Blob d) < 10 \<Longrightarrow>
   handleDoc em d s = s\<lparr>pc := Panicked (SliceBoundsOutOfRange 10 (cap (Blob d)))\<rparr>"
  by (simp add: handleDoc_def sliceTo_def)

lemma handleDoc_in_bounds:
  "10 \<le> cap (Blob d) \<Longrightarrow>
   handleDoc em d s =
     s\<lparr>emitted := emitted s @ [d],
       world := em d (logf (EmittingDoc (take 10 (elems (Blob d) @ spare (Blob d)))
                              (Format d) (Type d)) (world s))\<rparr>"
  by (simp add: handleDoc_def sliceTo_def)

lemma step_after_panic: "pc s = Panicked p \<Longrightarrow> step em n ev s = None"
  by (cases ev) (simp_all add: alive_def split: list.splits)

lemma run_after_panic: "pc s = Panicked p \<Longrightarrow> run em n (ev # evs) s = None"
  by (simp add: step_after_panic)

lemma run_append:
  "run em n (evs @ evs') s =
     (case run em n evs s of None \<Rightarrow> None | Some s' \<Rightarrow> run em n evs' s')"
  by (induction evs arbitrary: s) (simp_all split: option.splits)

text \<open>
  C9, as stated, fails: a blob of fewer than ten bytes whose backing array holds ten is
  sliced in bounds. The document of three bytes is logged with the seven bytes after it
  and reaches \<open>emit\<close>, in the wait loop and in the drain loop.
\<close>

theorem short_blob_with_capacity_counterexample:
  "len (Blob roomyDoc) < 10 \<and>
   step exampleEmit 1 CaseDoc ((initial noEffects)\<lparr>docChan := [roomyDoc]\<rparr>) =
     Some ((initial noEffects)
            \<lparr>emitted := [roomyDoc],
              world := \<lparr>logger = [EmittingDoc [123, 125, 10, 0, 0, 0, 0, 0, 0, 0] ''JSON'' ''SLSA'',
                                  UnableToIngest ''no predicate''],
                        storeCalls = []\<rparr>\<rparr>) \<and>
   step exampleEmit 1 DrainDoc ((initial noEffects)\<lparr>docChan := [roomyDoc], pc := DrainLoop\<rparr>) =
     Some ((initial noEffects)
            \<lparr>pc := DrainLoop, emitted := [roomyDoc],
              world := \<lparr>logger = [EmittingDoc [123, 125, 10, 0, 0, 0, 0, 0, 0, 0] ''JSON'' ''SLSA'',
                                  UnableToIngest ''no predicate''],
                        storeCalls = []\<rparr>\<rparr>)"
  by (simp add: roomyDoc_def len_def cap_def initial_def noEffects_def handleDoc_def sliceTo_def
      exampleEmit_def emit_def exampleProcess_def exampleParse_def logf_def)

text \<open>
  C9, amended. The preview \<open>d.Blob[:10]\<close> has no bound check, and it is out of bounds
  exactly when the capacity of the blob is below ten, which a blob of fewer than ten
  bytes with no spare capacity has. Then the step panics, in the wait loop and in the
  drain loop alike: the document has left the channel, nothing is logged and \<open>emit\<close> is
  not called. With a capacity of ten or more the document is passed to \<open>emit\<close> and the
  loop goes on.
\<close>

theorem preview_fails_iff_capacity_below_ten:
  "docChan s = d # rest \<Longrightarrow>
   len (Blob d) \<le> cap (Blob d) \<and>
   (cap (Blob d) < 10 \<and> pc s = WaitLoop \<and> collectorsDone s < n \<longrightarrow>
      step em n CaseDoc s =
        Some (s\<lparr>docChan := rest, pc := Panicked (SliceBoundsOutOfRange 10 (cap (Blob d)))\<rparr>)) \<and>
   (cap (Blob d) < 10 \<and> pc s = DrainLoop \<longrightarrow>
      step em n DrainDoc s =
        Some (s\<lparr>docChan := rest, pc := Panicked (SliceBoundsOutOfRange 10 (cap (Blob d)))\<rparr>)) \<and>
   (10 \<le> cap (Blob d) \<and> pc s = WaitLoop \<and> collectorsDone s < n \<longrightarrow>
      (\<exists>s'. step em n CaseDoc s = Some s' \<and> pc s' = WaitLoop \<and>
            emitted s' = emitted s @ [d])) \<and>
   (10 \<le> cap (Blob d) \<and> pc s = DrainLoop \<longrightarrow>
      (\<exists>s'. step em n DrainDoc s = Some s' \<and> pc s' = DrainLoop \<and>
            emitted s' = emitted s @ [d]))"
  by (simp add: handleDoc_out_of_bounds handleDoc_in_bounds len_le_cap)

theorem preview_fails_iff_capacity_below_ten_witness:
  "cap (Blob shortDoc) < 10 \<and>
   step exampleEmit 1 CaseDoc ((initial noEffects)\<lparr>docChan := [shortDoc]\<rparr>) =
     Some ((initial noEffects)\<lparr>pc := Panicked (SliceBoundsOutOfRange 10 2)\<rparr>) \<and>
   step exampleEmit 1 DrainDoc ((initial noEffects)\<lparr>docChan := [shortDoc], pc := DrainLoop\<rparr>) =
     Some ((initial noEffects)\<lparr>pc := Panicked (SliceBoundsOutOfRange 10 2)\<rparr>) \<and>
   10 \<le> cap (Blob longDoc) \<and>
   (\<exists>s'. step exampleEmit 1 CaseDoc ((initial noEffects)\<lparr>docChan := [longDoc]\<rparr>) = Some s' \<and>
         pc s' = WaitLoop \<and> emitted s' = [longDoc]) \<and>
   (\<exists>s'. step exampleEmit 1 DrainDoc
           ((initial noEffects)\<lparr>docChan := [longDoc], pc := DrainLoop\<rparr>) = Some s' \<and>
         pc s' = DrainLoop \<and> emitted s' = [longDoc])"
  using preview_fails_iff_capacity_below_ten
      [where s = "(initial noEffects)\<lparr>docChan := [shortDoc]\<rparr>" and d = shortDoc
         and rest = "[]" and n = 1 and em = exampleEmit]
    preview_fails_iff_capacity_below_ten
      [where s = "(initial noEffects)\<lparr>docChan := [shortDoc], pc := DrainLoop\<rparr>" and d = shortDoc
         and rest = "[]" and n = 1 and em = exampleEmit]
    preview_fails_iff_capacity_below_ten
      [where s = "(initial noEffects)\<lparr>docChan := [longDoc]\<rparr>" and d = longDoc
         and rest = "[]" and n = 1 and em = exampleEmit]
    preview_fails_iff_capacity_below_ten
      [where s = "(initial noEffects)\<lparr>docChan := [longDoc], pc := DrainLoop\<rparr>" and d = longDoc
         and rest = "[]" and n = 1 and em = exampleEmit]
  by (simp add: initial_def shortDoc_def longDoc_def cap_def)

lemma two_in_wait_loop:
  "docChan s = d # d' # rest \<Longrightarrow> pc s = WaitLoop \<Longrightarrow> collectorsDone s < n \<Longrightarrow>
   10 \<le> cap (Blob d) \<Longrightarrow> 10 \<le> cap (Blob d') \<Longrightarrow>
   \<exists>s1 s2. step em n CaseDoc s = Some s1 \<and> pc s1 = WaitLoop \<and> docChan s1 = d' # rest \<and>
     collectorsDone s1 = collectorsDone s \<and> emitted s1 = emitted s @ [d] \<and>
     step em n CaseDoc s1 = Some s2 \<and> pc s2 = WaitLoop \<and> docChan s2 = rest \<and>
     emitted s2 = emitted s @ [d, d'] \<and>
     world s2 = em d' (logf (EmittingDoc (take 10 (elems (Blob d') @ spare (Blob d')))
                               (Format d') (Type d')) (world s1))"
  by (simp add: handleDoc_in_bounds)

lemma two_in_drain_loop:
  "docChan s = d # d' # rest \<Longrightarrow> pc s = DrainLoop \<Longrightarrow>
   10 \<le> cap (Blob d) \<Longrightarrow> 10 \<le> cap (Blob d') \<Longrightarrow>
   \<exists>s1 s2. step em n DrainDoc s = Some s1 \<and> pc s1 = DrainLoop \<and> docChan s1 = d' # rest \<and>
     emitted s1 = emitted s @ [d] \<and>
     step em n DrainDoc s1 = Some s2 \<and> pc s2 = DrainLoop \<and> docChan s2 = rest \<and>
     emitted s2 = emitted s @ [d, d'] \<and>
     world s2 = em d' (logf (EmittingDoc (take 10 (elems (Blob d') @ spare (Blob d')))
                               (Format d') (Type d')) (world s1))"
  by (simp add: handleDoc_in_bounds)

text \<open>
  C5. When the Process, the Ingest or the Assemble stage fails for a document, \<open>emit\<close>
  writes the error to the logger and returns; it has no result that could carry the
  error on, and after a failure of Process or Ingest the store has not been called.
  Whatever the stages did with a document, the loop that passed it to \<open>emit\<close> is at the
  same place afterwards, and the next document of the channel is received and passed to
  \<open>emit\<close> in its turn (both documents having passed the preview of the log line).
\<close>

theorem stage_failure_is_isolated:
  "(processorFunc d = Inl err \<longrightarrow>
      emit processorFunc ingestorFunc assembler d w =
        logf (UnableToProcess err (Format d) (Type d)) w) \<and>
   (processorFunc d = Inr docTree \<and> ingestorFunc docTree = Inl err \<longrightarrow>
      emit processorFunc ingestorFunc assembler d w = logf (UnableToIngest err) w) \<and>
   (processorFunc d = Inr docTree \<and> ingestorFunc docTree = Inr graphs \<and>
    assembler graphs w = (w', Some err) \<longrightarrow>
      emit processorFunc ingestorFunc assembler d w = logf (UnableToAssemble err) w') \<and>
   (docChan s = d # d' # rest \<and> pc s = WaitLoop \<and> collectorsDone s < n \<and>
    10 \<le> cap (Blob d) \<and> 10 \<le> cap (Blob d') \<longrightarrow>
      (\<exists>s1 s2.
         step (emit processorFunc ingestorFunc assembler) n CaseDoc s = Some s1 \<and>
         pc s1 = WaitLoop \<and> docChan s1 = d' # rest \<and>
         collectorsDone s1 = collectorsDone s \<and> emitted s1 = emitted s @ [d] \<and>
         step (emit processorFunc ingestorFunc assembler) n CaseDoc s1 = Some s2 \<and>
         pc s2 = WaitLoop \<and> docChan s2 = rest \<and> emitted s2 = emitted s @ [d, d'] \<and>
         world s2 =
           emit processorFunc ingestorFunc assembler d'
             (logf (EmittingDoc (take 10 (elems (Blob d') @ spare (Blob d')))
                      (Format d') (Type d')) (world s1)))) \<and>
   (docChan s = d # d' # rest \<and> pc s = DrainLoop \<and>
    10 \<le> cap (Blob d) \<and> 10 \<le> cap (Blob d') \<longrightarrow>
      (\<exists>s1 s2.
         step (emit processorFunc ingestorFunc assembler) n DrainDoc s = Some s1 \<and>
         pc s1 = DrainLoop \<and> docChan s1 = d' # rest \<and> emitted s1 = emitted s @ [d] \<and>
         step (emit processorFunc ingestorFunc assembler) n DrainDoc s1 = Some s2 \<and>
         pc s2 = DrainLoop \<and> docChan s2 = rest \<and> emitted s2 = emitted s @ [d, d'] \<and>
         world s2 =
           emit processorFunc ingestorFunc assembler d'
             (logf (EmittingDoc (take 10 (elems (Blob d') @ spare (Blob d')))
                      (Format d') (Type d')) (world s1))))"
  using emit_process_fails [of processorFunc d err ingestorFunc assembler w]
    emit_ingest_fails [of processorFunc d docTree ingestorFunc err assembler w]
    emit_assemble_fails [of processorFunc d docTree ingestorFunc graphs assembler w w' err]
    two_in_wait_loop [of s d d' rest n "emit processorFunc ingestorFunc assembler"]
    two_in_drain_loop [of s d d' rest "emit processorFunc ingestorFunc assembler" n]
  by blast

theorem stage_failure_is_isolated_witness:
  "exampleProcess xmlDoc = Inl ''unsupported format'' \<and>
   exampleEmit xmlDoc noEffects =
     \<lparr>logger = [UnableToProcess ''unsupported format'' ''XML'' ''SLSA''], storeCalls = []\<rparr> \<and>
   exampleEmit roomyDoc noEffects =
     \<lparr>logger = [UnableToIngest ''no predicate''], storeCalls = []\<rparr> \<and>
   exampleEmit longDoc (exampleEmit longDoc noEffects) =
     \<lparr>logger = [UnableToAssemble ''store is full''],
      storeCalls = [\<lparr>Nodes = [12], Edges = []\<rparr>, \<lparr>Nodes = [12], Edges = []\<rparr>]\<rparr> \<and>
   (\<exists>s1 s2. step exampleEmit 1 CaseDoc ((initial noEffects)\<lparr>docChan := [roomyDoc, longDoc]\<rparr>) = Some s1 \<and>
      step exampleEmit 1 CaseDoc s1 = Some s2 \<and> pc s2 = WaitLoop \<and>
      emitted s2 = [roomyDoc, longDoc]) \<and>
   (\<exists>s1 s2. step exampleEmit 1 DrainDoc
               ((initial noEffects)\<lparr>docChan := [roomyDoc, longDoc], pc := DrainLoop\<rparr>) = Some s1 \<and>
      step exampleEmit 1 DrainDoc s1 = Some s2 \<and> pc s2 = DrainLoop \<and>
      emitted s2 = [roomyDoc, longDoc])"
proof -
  let ?asm = "assemblerFunc exampleStore ()"
  let ?g = "\<lparr>Nodes = [12], Edges = []\<rparr> :: (nat, nat \<times> nat) Graph"
  have e1: "exampleProcess xmlDoc = Inl ''unsupported format''"
    by (simp add: exampleProcess_def xmlDoc_def longDoc_def)
  have e2: "exampleProcess roomyDoc = Inr [123, 125, 10] \<and>
      exampleParse [123, 125, 10] = Inl ''no predicate''"
    by (simp add: exampleProcess_def exampleParse_def roomyDoc_def)
  have e3: "exampleProcess longDoc = Inr (elems (Blob longDoc)) \<and>
      exampleParse (elems (Blob longDoc)) = Inr [?g]"
    by (simp add: exampleProcess_def exampleParse_def longDoc_def)
  have e4: "?asm [?g] noEffects = (\<lparr>logger = [], storeCalls = [?g]\<rparr>, None)"
    by (simp add: assemblerFunc_def exampleStore_def noEffects_def combined_def AppendGraph_def)
  have e5: "?asm [?g] \<lparr>logger = [], storeCalls = [?g]\<rparr> =
      (\<lparr>logger = [], storeCalls = [?g, ?g]\<rparr>, Some ''store is full'')"
    by (simp add: assemblerFunc_def exampleStore_def combined_def AppendGraph_def)
  have first: "exampleEmit longDoc noEffects = \<lparr>logger = [], storeCalls = [?g]\<rparr>"
    by (simp add: exampleEmit_def emit_def e3 e4)
  have caps: "10 \<le> cap (Blob roomyDoc) \<and> 10 \<le> cap (Blob longDoc)"
    by (simp add: cap_def roomyDoc_def longDoc_def)
  have process: "exampleEmit xmlDoc noEffects =
      logf (UnableToProcess ''unsupported format'' (Format xmlDoc) (Type xmlDoc)) noEffects"
    unfolding exampleEmit_def
    using e1 stage_failure_is_isolated
        [where processorFunc = exampleProcess and d = xmlDoc and err = "''unsupported format''"]
    by blast
  have ingest: "exampleEmit roomyDoc noEffects = logf (UnableToIngest ''no predicate'') noEffects"
    unfolding exampleEmit_def
    using e2 stage_failure_is_isolated
        [where processorFunc = exampleProcess and ingestorFunc = exampleParse and d = roomyDoc
           and docTree = "[123, 125, 10]" and err = "''no predicate''"]
    by blast
  have assemble: "exampleEmit longDoc \<lparr>logger = [], storeCalls = [?g]\<rparr> =
      logf (UnableToAssemble ''store is full'') \<lparr>logger = [], storeCalls = [?g, ?g]\<rparr>"
    unfolding exampleEmit_def
    using e3 e5 stage_failure_is_isolated
        [where processorFunc = exampleProcess and ingestorFunc = exampleParse and d = longDoc
           and assembler = ?asm and docTree = "elems (Blob longDoc)" and graphs = "[?g]"
           and w = "\<lparr>logger = [], storeCalls = [?g]\<rparr>" and err = "''store is full''"]
    by blast
  have wait: "\<exists>s1 s2.
      step exampleEmit 1 CaseDoc ((initial noEffects)\<lparr>docChan := [roomyDoc, longDoc]\<rparr>) = Some s1 \<and>
      step exampleEmit 1 CaseDoc s1 = Some s2 \<and> pc s2 = WaitLoop \<and>
      emitted s2 = emitted ((initial noEffects)\<lparr>docChan := [roomyDoc, longDoc]\<rparr>) @ [roomyDoc, longDoc]"
  proof -
    have pre: "docChan ((initial noEffects)\<lparr>docChan := [roomyDoc, longDoc]\<rparr>) = roomyDoc # longDoc # [] \<and>
        pc ((initial noEffects)\<lparr>docChan := [roomyDoc, longDoc]\<rparr>) = WaitLoop \<and>
        collectorsDone ((initial noEffects)\<lparr>docChan := [roomyDoc, longDoc]\<rparr>) < 1"
      by (simp add: initial_def)
    show ?thesis
      unfolding exampleEmit_def
      using pre caps stage_failure_is_isolated
        [where processorFunc = exampleProcess and ingestorFunc = exampleParse and d = roomyDoc
           and assembler = ?asm and d' = longDoc and rest = "[]" and n = 1
           and s = "(initial noEffects)\<lparr>docChan := [roomyDoc, longDoc]\<rparr>"]
      by blast
  qed
  have drain: "\<exists>s1 s2.
      step exampleEmit 1 DrainDoc
        ((initial noEffects)\<lparr>docChan := [roomyDoc, longDoc], pc := DrainLoop\<rparr>) = Some s1 \<and>
      step exampleEmit 1 DrainDoc s1 = Some s2 \<and> pc s2 = DrainLoop \<and>
      emitted s2 =
        emitted ((initial noEffects)\<lparr>docChan := [roomyDoc, longDoc], pc := DrainLoop\<rparr>) @
        [roomyDoc, longDoc]"
  proof -
    have pre: "docChan ((initial noEffects)\<lparr>docChan := [roomyDoc, longDoc], pc := DrainLoop\<rparr>) =
          roomyDoc # longDoc # [] \<and>
        pc ((initial noEffects)\<lparr>docChan := [roomyDoc, longDoc], pc := DrainLoop\<rparr>) = DrainLoop"
      by (simp add: initial_def)
    show ?thesis
      unfolding exampleEmit_def
      using pre caps stage_failure_is_isolated
        [where processorFunc = exampleProcess and ingestorFunc = exampleParse and d = roomyDoc
           and assembler = ?asm and d' = longDoc and rest = "[]"
           and s = "(initial noEffects)\<lparr>docChan := [roomyDoc, longDoc], pc := DrainLoop\<rparr>"]
      by blast
  qed
  have shape: "Format xmlDoc = ''XML'' \<and> Type xmlDoc = ''SLSA'' \<and>
      emitted ((initial noEffects)\<lparr>docChan := [roomyDoc, longDoc]\<rparr>) = [] \<and>
      emitted ((initial noEffects)\<lparr>docChan := [roomyDoc, longDoc], pc := DrainLoop\<rparr>) = []"
    by (simp add: xmlDoc_def longDoc_def initial_def)
  from e1 process ingest assemble first wait drain shape show ?thesis
    by (simp add: logf_def noEffects_def)
qed

subsection \<open>The wait loop\<close>

lemma handleDoc_frame:
  "docChan (handleDoc em d s) = docChan s"
  "errChan (handleDoc em d s) = errChan s"
  "collectorsDone (handleDoc em d s) = collectorsDone s"
  "observed (handleDoc em d s) = observed s"
  by (simp_all add: handleDoc_def split: sum.splits)

lemma handleDoc_pc:
  "pc (handleDoc em d s) = pc s \<or> (\<exists>p. pc (handleDoc em d s) = Panicked p)"
  by (simp add: handleDoc_def split: sum.splits)

lemma handleErr_frame:
  "docChan (handleErr p err s) = docChan s"
  "errChan (handleErr p err s) = errChan s"
  "collectorsDone (handleErr p err s) = collectorsDone s + 1"
  "observed (handleErr p err s) = observed s @ [p]"
  "pc (handleErr p err s) = pc s"
  "emitted (handleErr p err s) = emitted s"
  by (simp_all add: handleErr_def Let_def)

lemma signalsReceived_Cons:
  "signalsReceived (ev # evs) = signalsReceived [ev] + signalsReceived evs"
  by (cases ev) simp_all

lemma step_collectorsDone:
  "step em n ev s = Some s' \<Longrightarrow> collectorsDone s' = collectorsDone s + signalsReceived [ev]"
  by (cases ev) (auto simp: handleDoc_frame handleErr_frame split: if_splits list.splits)

lemma run_collectorsDone:
  "run em n evs s = Some s' \<Longrightarrow> collectorsDone s' = collectorsDone s + signalsReceived evs"
proof (induction evs arbitrary: s)
  case Nil
  then show ?case by simp
next
  case (Cons ev evs)
  from Cons.prems obtain s1 where s1: "step em n ev s = Some s1" and r: "run em n evs s1 = Some s'"
    by (auto split: option.splits)
  from Cons.IH [OF r] step_collectorsDone [OF s1] show ?case
    using signalsReceived_Cons [of ev evs] by simp
qed

lemma signalled_frame:
  "signalled (s\<lparr>docChan := ds\<rparr>) = signalled s"
  "signalled (s\<lparr>pc := l\<rparr>) = signalled s"
  "signalled (handleDoc em d s) = signalled s"
  by (simp_all add: signalled_def handleDoc_frame)

lemma signalled_Done:
  "signalled (s\<lparr>errChan := errChan s @ [(p, err)]\<rparr>) = signalled s @ [p]"
  by (simp add: signalled_def)

lemma signalled_CaseErr:
  "errChan s = (p, err) # rest \<Longrightarrow>
   signalled (handleErr p err (s\<lparr>errChan := rest\<rparr>)) = signalled s"
  by (simp add: signalled_def handleErr_frame)

lemma protocolInv_initial: "protocolInv n (initial w)"
  by (simp add: protocolInv_def initial_def signalled_def)

lemma protocolInv_handleDoc:
  assumes "protocolInv n s"
  shows "protocolInv n (handleDoc em d (s\<lparr>docChan := rest\<rparr>))"
proof -
  have "pc (handleDoc em d (s\<lparr>docChan := rest\<rparr>)) = pc s \<or>
      (\<exists>p. pc (handleDoc em d (s\<lparr>docChan := rest\<rparr>)) = Panicked p)"
    using handleDoc_pc [of em d "s\<lparr>docChan := rest\<rparr>"] by simp
  with assms show ?thesis
    by (auto simp: protocolInv_def handleDoc_frame signalled_frame)
qed

lemma protocolInv_step:
  assumes "step em n ev s = Some s'" and "protocolInv n s"
  shows "protocolInv n s'"
proof (cases ev)
  case (Send p d)
  with assms(1) have "s' = s\<lparr>docChan := docChan s @ [d]\<rparr>"
    by (simp split: if_splits)
  with assms(2) show ?thesis
    by (simp add: protocolInv_def signalled_frame)
next
  case (Done p err)
  with assms(1) have "s' = s\<lparr>errChan := errChan s @ [(p, err)]\<rparr>"
    and "p < n" and "p \<notin> set (signalled s)"
    by (simp_all split: if_splits)
  with assms(2) show ?thesis
    by (simp add: protocolInv_def signalled_Done)
next
  case CaseDoc
  with assms(1) obtain d rest where "s' = handleDoc em d (s\<lparr>docChan := rest\<rparr>)"
    by (auto split: if_splits list.splits)
  with assms(2) show ?thesis
    by (simp add: protocolInv_handleDoc)
next
  case CaseErr
  with assms(1) obtain p err rest where e: "errChan s = (p, err) # rest"
    and "pc s = WaitLoop" and "collectorsDone s < n"
    and "s' = handleErr p err (s\<lparr>errChan := rest\<rparr>)"
    by (auto split: if_splits list.splits)
  with assms(2) signalled_CaseErr [OF e] show ?thesis
    by (simp add: protocolInv_def handleErr_frame)
next
  case ExitWait
  with assms(1) have "s' = s\<lparr>pc := DrainLoop\<rparr>" and "\<not> collectorsDone s < n"
    by (simp_all split: if_splits)
  with assms(2) show ?thesis
    by (simp add: protocolInv_def signalled_frame)
next
  case DrainDoc
  with assms(1) obtain d rest where "s' = handleDoc em d (s\<lparr>docChan := rest\<rparr>)"
    by (auto split: if_splits list.splits)
  with assms(2) show ?thesis
    by (simp add: protocolInv_handleDoc)
next
  case ExitDrain
  with assms(1) have "s' = s\<lparr>pc := Returned\<rparr>" and "pc s = DrainLoop"
    by (simp_all split: if_splits)
  with assms(2) show ?thesis
    by (simp add: protocolInv_def signalled_frame)
qed

lemma protocolInv_run:
  "run em n evs s = Some s' \<Longrightarrow> protocolInv n s \<Longrightarrow> protocolInv n s'"
proof (induction evs arbitrary: s)
  case Nil
  then show ?case by simp
next
  case (Cons ev evs)
  from Cons.prems(1) obtain s1 where s1: "step em n ev s = Some s1" and r: "run em n evs s1 = Some s'"
    by (auto split: option.splits)
  from Cons.IH [OF r protocolInv_step [OF s1 Cons.prems(2)]] show ?case .
qed

text \<open>
  C2. Along every interleaving of the collectors' writes with the steps of the
  coordinator, \<open>collectorsDone\<close> is the number of completion signals received. The wait
  loop is left for the drain loop only with exactly \<open>numCollectors\<close> signals received;
  in the wait loop, leaving is possible exactly when that many have been received, and
  it is then the only step (the \<open>select\<close> is not entered again), while with fewer the
  loop cannot be left. A signal received adds one to the count whether it carries an
  error or nil, and the coordinator stays in the wait loop.
\<close>

theorem wait_loop_exits_iff_all_signals_received:
  assumes "run em n evs (initial w) = Some s"
  shows "collectorsDone s = signalsReceived evs \<and>
    (pc s = DrainLoop \<or> pc s = Returned \<longrightarrow> signalsReceived evs = n) \<and>
    (pc s = WaitLoop \<longrightarrow>
       (step em n ExitWait s = Some (s\<lparr>pc := DrainLoop\<rparr>) \<longleftrightarrow> signalsReceived evs = n) \<and>
       (step em n ExitWait s = None \<longleftrightarrow> signalsReceived evs < n)) \<and>
    (pc s = WaitLoop \<and> signalsReceived evs = n \<longrightarrow>
       step em n CaseDoc s = None \<and> step em n CaseErr s = None) \<and>
    (pc s = WaitLoop \<and> signalsReceived evs < n \<and> errChan s = (p, err) # rest \<longrightarrow>
       step em n CaseErr s = Some (handleErr p err (s\<lparr>errChan := rest\<rparr>)) \<and>
       collectorsDone (handleErr p err (s\<lparr>errChan := rest\<rparr>)) = signalsReceived evs + 1 \<and>
       pc (handleErr p err (s\<lparr>errChan := rest\<rparr>)) = WaitLoop)"
proof -
  have count: "collectorsDone s = signalsReceived evs"
    using run_collectorsDone [OF assms] by (simp add: initial_def)
  have "protocolInv n s"
    using protocolInv_run [OF assms protocolInv_initial] .
  then have le: "collectorsDone s \<le> n"
    and left: "pc s = DrainLoop \<or> pc s = Returned \<longrightarrow> collectorsDone s = n"
    by (auto simp: protocolInv_def)
  from le left count show ?thesis
    by (auto simp: handleErr_frame split: list.splits)
qed


theorem wait_loop_exits_iff_all_signals_received_witness:
  "(\<exists>s. run exampleEmit 2
          [Send 0 longDoc, Done 0 (Some ''walk failed''), CaseErr, CaseDoc, Done 1 None,
           CaseErr, ExitWait] (initial noEffects) = Some s \<and>
        pc s = DrainLoop \<and> collectorsDone s = 2 \<and>
        signalsReceived
          [Send 0 longDoc, Done 0 (Some ''walk failed''), CaseErr, CaseDoc, Done 1 None,
           CaseErr, ExitWait] = 2) \<and>
   (\<exists>s. run exampleEmit 2 [Done 1 (Some ''walk failed'')] (initial noEffects) = Some s \<and>
        pc s = WaitLoop \<and> step exampleEmit 2 ExitWait s = None \<and>
        (\<exists>s'. step exampleEmit 2 CaseErr s = Some s' \<and> collectorsDone s' = 1 \<and>
              pc s' = WaitLoop))"
proof -
  let ?evs = "[Send 0 longDoc, Done 0 (Some ''walk failed''), CaseErr, CaseDoc, Done 1 None,
           CaseErr, ExitWait]"
  let ?s = "\<lparr>docChan = [], errChan = [], collectorsDone = 2, pc = DrainLoop,
     observed = [0, 1], emitted = [longDoc],
     world = logf CollectorEndedGracefully
       (exampleEmit longDoc
         (logf (EmittingDoc [123, 34, 97, 34, 58, 34, 98, 34, 125, 32] ''JSON'' ''SLSA'')
           (logf (CollectorEndedWithError ''walk failed'') noEffects)))\<rparr>"
  let ?t = "(initial noEffects)\<lparr>errChan := [(1, Some ''walk failed'')]\<rparr>"
  have cap: "sliceTo (Blob longDoc) 10 =
      Inr \<lparr>elems = [123, 34, 97, 34, 58, 34, 98, 34, 125, 32], spare = [32, 10]\<rparr>"
    by (simp add: sliceTo_def cap_def longDoc_def)
  have fmt: "Format longDoc = ''JSON'' \<and> Type longDoc = ''SLSA''"
    by (simp add: longDoc_def)
  have r1: "run exampleEmit 2 ?evs (initial noEffects) = Some ?s"
    by (simp add: initial_def alive_def signalled_def handleErr_def handleDoc_def cap fmt
        logf_def)
  have r2: "run exampleEmit 2 [Done 1 (Some ''walk failed'')] (initial noEffects) = Some ?t"
    by (simp add: initial_def alive_def signalled_def)
  have c1: "signalsReceived ?evs = 2"
    by simp
  have t: "pc ?t = WaitLoop \<and> errChan ?t = (1, Some ''walk failed'') # []"
    by (simp add: initial_def)
  have first: "pc ?s = DrainLoop \<and> collectorsDone ?s = 2"
    by simp
  have second: "step exampleEmit 2 ExitWait ?t = None \<and>
      step exampleEmit 2 CaseErr ?t =
        Some (handleErr 1 (Some ''walk failed'') (?t\<lparr>errChan := []\<rparr>)) \<and>
      collectorsDone (handleErr 1 (Some ''walk failed'') (?t\<lparr>errChan := []\<rparr>)) = 1 \<and>
      pc (handleErr 1 (Some ''walk failed'') (?t\<lparr>errChan := []\<rparr>)) = WaitLoop"
    using wait_loop_exits_iff_all_signals_received
        [OF r2, where p = 1 and err = "Some ''walk failed''" and rest = "[]"] t
    by simp
  from r1 c1 first r2 t second
    wait_loop_exits_iff_all_signals_received [OF r1, where p = 0 and err = None and rest = "[]"]
  show ?thesis
    by blast
qed

subsection \<open>Delivery of the documents\<close>

text \<open>
  What holds of the delivery when no preview is out of bounds: if the collectors keep
  the convention, the documents passed to \<open>emit\<close> followed by those still in the channel
  are the documents written, in the order written, and once \<open>Run\<close> has returned every
  document written has been passed to \<open>emit\<close> exactly once.
\<close>

lemma observed_all:
  assumes "protocolInv n s" and "collectorsDone s = n" and "p < n"
  shows "p \<in> set (observed s)"
proof -
  from assms(1) have d: "distinct (observed s)" and b: "set (observed s) \<subseteq> {..<n}"
    and l: "length (observed s) = collectorsDone s"
    by (auto simp: protocolInv_def signalled_def)
  from d l assms(2) have "card (set (observed s)) = card {..<n}"
    by (simp add: distinct_card)
  with b have "set (observed s) = {..<n}"
    by (simp add: card_subset_eq)
  with assms(3) show ?thesis
    by simp
qed

lemma delivery_step:
  assumes st: "step em n ev s = Some s'"
    and inv: "protocolInv n s"
    and drained: "pc s = Returned \<longrightarrow> docChan s = []"
    and quiet: "case ev of Send p d \<Rightarrow> p \<notin> set (observed s) | _ \<Rightarrow> True"
    and bounds: "\<forall>d \<in> set (docChan s @ sent [ev]). 10 \<le> cap (Blob d)"
  shows "emitted s' @ docChan s' = emitted s @ docChan s @ sent [ev] \<and>
         (pc s' = Returned \<longrightarrow> docChan s' = [])"
proof (cases ev)
  case (Send p d)
  with st have s': "s' = s\<lparr>docChan := docChan s @ [d]\<rparr>" and p: "p < n"
    by (simp_all split: if_splits)
  have "pc s \<noteq> Returned"
  proof
    assume "pc s = Returned"
    with inv have "collectorsDone s = n"
      by (simp add: protocolInv_def)
    from observed_all [OF inv this p] quiet Send show False
      by simp
  qed
  with s' Send show ?thesis
    by simp
next
  case (Done p err)
  with st have "s' = s\<lparr>errChan := errChan s @ [(p, err)]\<rparr>"
    by (simp split: if_splits)
  with drained Done show ?thesis
    by simp
next
  case CaseDoc
  with st obtain d rest where c: "docChan s = d # rest" and l: "pc s = WaitLoop"
    and s': "s' = handleDoc em d (s\<lparr>docChan := rest\<rparr>)"
    by (auto split: if_splits list.splits)
  from bounds c have "10 \<le> cap (Blob d)"
    by simp
  with s' c l CaseDoc show ?thesis
    by (simp add: handleDoc_in_bounds)
next
  case CaseErr
  with st obtain p err rest where "pc s = WaitLoop"
    and "s' = handleErr p err (s\<lparr>errChan := rest\<rparr>)"
    by (auto split: if_splits list.splits)
  with CaseErr show ?thesis
    by (simp add: handleErr_frame)
next
  case ExitWait
  with st have "s' = s\<lparr>pc := DrainLoop\<rparr>"
    by (simp split: if_splits)
  with ExitWait show ?thesis
    by simp
next
  case DrainDoc
  with st obtain d rest where c: "docChan s = d # rest" and l: "pc s = DrainLoop"
    and s': "s' = handleDoc em d (s\<lparr>docChan := rest\<rparr>)"
    by (auto split: if_splits list.splits)
  from bounds c have "10 \<le> cap (Blob d)"
    by simp
  with s' c l DrainDoc show ?thesis
    by (simp add: handleDoc_in_bounds)
next
  case ExitDrain
  with st have "s' = s\<lparr>pc := Returned\<rparr>" and "docChan s = []"
    by (simp_all split: if_splits)
  with ExitDrain show ?thesis
    by simp
qed

lemma step_docChan_subset:
  "step em n ev s = Some s' \<Longrightarrow> set (docChan s') \<subseteq> set (docChan s) \<union> set (sent [ev])"
  by (cases ev) (auto simp: handleDoc_frame handleErr_frame split: if_splits list.splits)

lemma delivery_run:
  "run em n evs s = Some s' \<Longrightarrow> protocolInv n s \<Longrightarrow>
   (pc s = Returned \<longrightarrow> docChan s = []) \<Longrightarrow> quiesced em n evs s \<Longrightarrow>
   \<forall>d \<in> set (docChan s @ sent evs). 10 \<le> cap (Blob d) \<Longrightarrow>
   emitted s' @ docChan s' = emitted s @ docChan s @ sent evs \<and>
   (pc s' = Returned \<longrightarrow> docChan s' = [])"
proof (induction evs arbitrary: s)
  case Nil
  then show ?case by simp
next
  case (Cons ev evs)
  from Cons.prems(1) obtain s1 where s1: "step em n ev s = Some s1"
    and r: "run em n evs s1 = Some s'"
    by (auto split: option.splits)
  have split: "sent (ev # evs) = sent [ev] @ sent evs"
    by (cases ev) simp_all
  from Cons.prems(4) s1 have quiet: "case ev of Send p d \<Rightarrow> p \<notin> set (observed s) | _ \<Rightarrow> True"
    and q: "quiesced em n evs s1"
    by simp_all
  from Cons.prems(5) have b: "\<forall>d \<in> set (docChan s @ sent [ev]). 10 \<le> cap (Blob d)"
    unfolding split by auto
  from delivery_step [OF s1 Cons.prems(2,3) quiet b]
  have one: "emitted s1 @ docChan s1 = emitted s @ docChan s @ sent [ev]"
    and d1: "pc s1 = Returned \<longrightarrow> docChan s1 = []"
    by simp_all
  from step_docChan_subset [OF s1] Cons.prems(5)
  have b1: "\<forall>d \<in> set (docChan s1 @ sent evs). 10 \<le> cap (Blob d)"
    unfolding split by auto
  from Cons.IH [OF r protocolInv_step [OF s1 Cons.prems(2)] d1 q b1]
  have "emitted s' @ docChan s' = (emitted s1 @ docChan s1) @ sent evs"
    and last: "pc s' = Returned \<longrightarrow> docChan s' = []"
    by simp_all
  with one split show ?case
    by simp
qed

lemma every_document_emitted_once_if_previews_in_bounds:
  assumes "run em n evs (initial w) = Some s"
    and "quiesced em n evs (initial w)"
    and "\<forall>d \<in> set (sent evs). 10 \<le> cap (Blob d)"
  shows "emitted s @ docChan s = sent evs"
    and "pc s = Returned \<Longrightarrow> emitted s = sent evs"
proof -
  have "\<forall>d \<in> set (docChan (initial w) @ sent evs). 10 \<le> cap (Blob d)"
    using assms(3) by (simp add: initial_def)
  from delivery_run [OF assms(1) protocolInv_initial _ assms(2) this]
  have "emitted s @ docChan s = sent evs \<and> (pc s = Returned \<longrightarrow> docChan s = [])"
    by (simp add: initial_def)
  then show "emitted s @ docChan s = sent evs"
    and "pc s = Returned \<Longrightarrow> emitted s = sent evs"
    by auto
qed

text \<open>
  Without the convention a document is lost: a collector that writes after the last
  test of the drain loop leaves its document in the channel.
\<close>

lemma late_document_is_lost:
  "run em 1 [Done 0 None, CaseErr, ExitWait, ExitDrain, Send 0 d] (initial w) =
     Some ((initial w)\<lparr>docChan := [d], collectorsDone := 1, pc := Returned, observed := [0],
                       world := logf CollectorEndedGracefully w\<rparr>) \<and>
   \<not> quiesced em 1 [Done 0 None, CaseErr, ExitWait, ExitDrain, Send 0 d] (initial w)"
  by (simp add: initial_def alive_def signalled_def handleErr_def)

text \<open>
  C1. The code on a run that keeps the convention of the claim: one collector writes
  a document of two bytes (capacity two) and then its completion signal, and the wait
  loop receives the document. The preview \<open>d.Blob[:10]\<close> of line 128 panics, the
  document has left the channel and was not passed to \<open>emit\<close>, and no further step of
  the run exists.
\<close>

theorem short_document_is_never_emitted:
  "quiesced em 1 [Send 0 shortDoc, Done 0 None, CaseDoc] (initial w) \<and>
   run em 1 [Send 0 shortDoc, Done 0 None, CaseDoc] (initial w) =
     Some ((initial w)\<lparr>errChan := [(0, None)], pc := Panicked (SliceBoundsOutOfRange 10 2)\<rparr>) \<and>
   emitted ((initial w)\<lparr>errChan := [(0, None)], pc := Panicked (SliceBoundsOutOfRange 10 2)\<rparr>) = [] \<and>
   run em 1 ([Send 0 shortDoc, Done 0 None, CaseDoc] @ ev # evs) (initial w) = None"
proof -
  have c: "cap (Blob shortDoc) = 2"
    by (simp add: cap_def shortDoc_def)
  have r: "run em 1 [Send 0 shortDoc, Done 0 None, CaseDoc] (initial w) =
     Some ((initial w)\<lparr>errChan := [(0, None)], pc := Panicked (SliceBoundsOutOfRange 10 2)\<rparr>)"
    by (simp add: initial_def alive_def signalled_def handleDoc_out_of_bounds c)
  have q: "quiesced em 1 [Send 0 shortDoc, Done 0 None, CaseDoc] (initial w)"
    by (simp add: initial_def alive_def signalled_def handleDoc_out_of_bounds c)
  have "run em 1 ([Send 0 shortDoc, Done 0 None, CaseDoc] @ ev # evs) (initial w) = None"
    unfolding run_append r by (simp add: step_after_panic)
  with r q show ?thesis
    by (simp add: initial_def)
qed

subsection \<open>The drain loop\<close>

text \<open>
  When no preview is out of bounds the drain loop, on its own, passes every buffered
  document to \<open>emit\<close> in the order of the channel and \<open>Run\<close> returns with the channel
  empty.
\<close>

lemma drain_emits_buffered:
  "pc s = DrainLoop \<Longrightarrow> docChan s = ds \<Longrightarrow> \<forall>d \<in> set ds. 10 \<le> cap (Blob d) \<Longrightarrow>
   \<exists>s'. run em n (replicate (length ds) DrainDoc @ [ExitDrain]) s = Some s' \<and>
        pc s' = Returned \<and> docChan s' = [] \<and> emitted s' = emitted s @ ds"
proof (induction ds arbitrary: s)
  case Nil
  then show ?case by simp
next
  case (Cons d ds)
  let ?s1 = "handleDoc em d (s\<lparr>docChan := ds\<rparr>)"
  from Cons.prems have s1: "step em n DrainDoc s = Some ?s1"
    by simp
  from Cons.prems have f: "pc ?s1 = DrainLoop" "docChan ?s1 = ds" "emitted ?s1 = emitted s @ [d]"
    by (simp_all add: handleDoc_in_bounds)
  from Cons.prems(3) have "\<forall>d \<in> set ds. 10 \<le> cap (Blob d)"
    by simp
  from Cons.IH [OF f(1,2) this] f(3) s1 show ?case
    by simp
qed

text \<open>
  C3. The code on a run where the completion signal overtakes two buffered documents,
  the first of two bytes (capacity two): the wait loop is left with both documents in
  the channel, the drain loop receives the first, and the preview of line 143 panics.
  Neither document was passed to \<open>emit\<close>, the second is still in the channel, and no
  further step of the run exists.
\<close>

theorem buffered_short_document_is_not_drained:
  "run em 1 [Send 0 shortDoc, Send 0 longDoc, Done 0 None, CaseErr, ExitWait] (initial w) =
     Some ((initial w)\<lparr>docChan := [shortDoc, longDoc], collectorsDone := 1, pc := DrainLoop,
                       observed := [0], world := logf CollectorEndedGracefully w\<rparr>) \<and>
   run em 1 [Send 0 shortDoc, Send 0 longDoc, Done 0 None, CaseErr, ExitWait, DrainDoc]
       (initial w) =
     Some ((initial w)\<lparr>docChan := [longDoc], collectorsDone := 1,
                       pc := Panicked (SliceBoundsOutOfRange 10 2),
                       observed := [0], world := logf CollectorEndedGracefully w\<rparr>) \<and>
   emitted ((initial w)\<lparr>docChan := [longDoc], collectorsDone := 1,
                       pc := Panicked (SliceBoundsOutOfRange 10 2),
                       observed := [0], world := logf CollectorEndedGracefully w\<rparr>) = [] \<and>
   run em 1 ([Send 0 shortDoc, Send 0 longDoc, Done 0 None, CaseErr, ExitWait, DrainDoc] @
             ev # evs) (initial w) = None"
proof -
  have c: "cap (Blob shortDoc) = 2"
    by (simp add: cap_def shortDoc_def)
  have r1: "run em 1 [Send 0 shortDoc, Send 0 longDoc, Done 0 None, CaseErr, ExitWait] (initial w) =
     Some ((initial w)\<lparr>docChan := [shortDoc, longDoc], collectorsDone := 1, pc := DrainLoop,
                       observed := [0], world := logf CollectorEndedGracefully w\<rparr>)"
    by (simp add: initial_def alive_def signalled_def handleErr_def)
  have r2: "run em 1 [Send 0 shortDoc, Send 0 longDoc, Done 0 None, CaseErr, ExitWait, DrainDoc]
       (initial w) =
     Some ((initial w)\<lparr>docChan := [longDoc], collectorsDone := 1,
                       pc := Panicked (SliceBoundsOutOfRange 10 2),
                       observed := [0], world := logf CollectorEndedGracefully w\<rparr>)"
    by (simp add: initial_def alive_def signalled_def handleErr_def handleDoc_out_of_bounds c)
  have "run em 1 ([Send 0 shortDoc, Send 0 longDoc, Done 0 None, CaseErr, ExitWait, DrainDoc] @
             ev # evs) (initial w) = None"
    unfolding run_append r2 by (simp add: step_after_panic)
  with r1 r2 show ?thesis
    by (simp add: initial_def)
qed

end
